theory Spec2Isabelle
  imports Complex_Main "HOL-Library.Sublist"
begin

section \<open>Strings and the library functions the service calls\<close>

text \<open>
  A Python \<open>str\<close> is modelled as a \<open>string\<close>, one \<open>char\<close> per code point, so the
  texts covered are those whose code points lie below 256 (Latin-1). On that range the
  characters Python treats as whitespace (\<open>str.strip\<close>, \<open>str.isspace\<close> and the \<open>\s\<close> of
  \<open>re\<close> agree) are the code points 9-13, 28-32, 133 and 160; the decimal digits of \<open>\d\<close>
  are \<open>0\<close>-\<open>9\<close>; and no character outside the ASCII letters folds to an ASCII letter
  under \<open>re.IGNORECASE\<close>.
\<close>

definition isspace :: "char \<Rightarrow> bool" where
  "isspace c = ((of_char c :: nat) \<in> set [9, 10, 11, 12, 13, 28, 29, 30, 31, 32, 133, 160])"

definition isdigit :: "char \<Rightarrow> bool" where
  "isdigit c = (48 \<le> (of_char c :: nat) \<and> (of_char c :: nat) \<le> 57)"

definition isupper :: "char \<Rightarrow> bool" where
  "isupper c = (65 \<le> (of_char c :: nat) \<and> (of_char c :: nat) \<le> 90)"

definition islower :: "char \<Rightarrow> bool" where
  "islower c = (97 \<le> (of_char c :: nat) \<and> (of_char c :: nat) \<le> 122)"

definition lower :: "char \<Rightarrow> char" where
  "lower c = (if isupper c then char_of (of_char c + 32 :: nat) else c)"

definition upper :: "char \<Rightarrow> char" where
  "upper c = (if islower c then char_of (of_char c - 32 :: nat) else c)"

text \<open>\<open>str.strip()\<close>: whitespace removed from both ends.\<close>

definition strip :: "string \<Rightarrow> string" where
  "strip s = rev (dropWhile isspace (rev (dropWhile isspace s)))"

text \<open>
  \<open>str.split(sep)\<close> for a non-empty separator: the pieces between the occurrences of
  \<open>sep\<close>, found left to right without overlap. (Python raises \<open>ValueError\<close> on an
  empty separator; the service only splits on the constant \<open>"\n\n"\<close>, and the model
  returns the text unsplit there.)
\<close>

function split :: "string \<Rightarrow> string \<Rightarrow> string list" where
  "split sep s =
     (if sep = [] then [s]
      else if s = [] then [[]]
      else if prefix sep s then [] # split sep (drop (length sep) s)
      else (case split sep (tl s) of
              [] \<Rightarrow> [[hd s]]
            | w # ws \<Rightarrow> (hd s # w) # ws))"
  by pat_completeness auto
termination
  by (relation "measure (\<lambda>(sep, s). length s)") auto

declare split.simps [simp del]

text \<open>
  \<open>str.replace(old, new)\<close>: every occurrence of \<open>old\<close>, found left to right without
  overlap, replaced by \<open>new\<close>. For the empty \<open>old\<close> Python puts \<open>new\<close> before every
  character and at the end.
\<close>

function replace :: "string \<Rightarrow> string \<Rightarrow> string \<Rightarrow> string" where
  "replace old new s =
     (if old = [] then new @ concat (map (\<lambda>c. c # new) s)
      else if s = [] then []
      else if prefix old s then new @ replace old new (drop (length old) s)
      else hd s # replace old new (tl s))"
  by pat_completeness auto
termination
  by (relation "measure (\<lambda>(old, new, s). length s)") auto

declare replace.simps [simp del]

text \<open>\<open>str.join\<close>.\<close>

fun join :: "string \<Rightarrow> string list \<Rightarrow> string" where
  "join sep [] = []"
| "join sep [x] = x"
| "join sep (x # y # ys) = x @ sep @ join sep (y # ys)"

text \<open>\<open>str(n)\<close> for a natural number and for an integer, and the format \<open>{n:04d}\<close>.\<close>

definition digit_char :: "nat \<Rightarrow> char" where
  "digit_char d = char_of (48 + d)"

fun str_nat :: "nat \<Rightarrow> string" where
  "str_nat n = (if n < 10 then [digit_char n] else str_nat (n div 10) @ [digit_char (n mod 10)])"

declare str_nat.simps [simp del]

definition str_int :: "int \<Rightarrow> string" where
  "str_int i = (if i < 0 then CHR ''-'' # str_nat (nat (- i)) else str_nat (nat i))"

definition format_04d :: "nat \<Rightarrow> string" where
  "format_04d n = replicate (4 - length (str_nat n)) CHR ''0'' @ str_nat n"

text \<open>
  \<open>os.path.join\<close> of two components and \<open>os.path.basename\<close>, on a POSIX system.
\<close>

definition path_join :: "string \<Rightarrow> string \<Rightarrow> string" where
  "path_join d f =
     (if f \<noteq> [] \<and> hd f = CHR ''/'' then f
      else if d = [] \<or> last d = CHR ''/'' then d @ f
      else d @ CHR ''/'' # f)"

definition basename :: "string \<Rightarrow> string" where
  "basename p = rev (takeWhile (\<lambda>c. c \<noteq> CHR ''/'') (rev p))"

subsection \<open>The regular expressions of the service\<close>

text \<open>
  The patterns the service hands to \<open>re\<close> are sequences of single-character atoms, each
  taken once or one-or-more times (\<open>+\<close>, greedy, with backtracking): a literal, a
  character set such as \<open>[Ff]\<close>, a range such as \<open>[A-Z]\<close>, \<open>\s\<close> and \<open>\d\<close>. The flag
  \<open>re.IGNORECASE\<close> is the Boolean \<open>ic\<close>.
\<close>

datatype atom = Lit char | Cls "char list" | Range char char | Space | Digit

datatype item = One atom | Plus atom

type_synonym pattern = "item list"

fun atom_match :: "bool \<Rightarrow> atom \<Rightarrow> char \<Rightarrow> bool" where
  "atom_match ic (Lit l) c = (if ic then lower c = lower l else c = l)"
| "atom_match ic (Cls ls) c = (if ic then lower c \<in> set (map lower ls) else c \<in> set ls)"
| "atom_match ic (Range lo hi) c =
     (let inside = (\<lambda>x. (of_char lo :: nat) \<le> of_char x \<and> (of_char x :: nat) \<le> of_char hi)
      in if ic then inside (lower c) \<or> inside (upper c) else inside c)"
| "atom_match ic Space c = isspace c"
| "atom_match ic Digit c = isdigit c"

text \<open>
  \<open>try_down f k\<close> is the backtracking of a greedy \<open>+\<close>: the longest repetition first,
  down to one.
\<close>

primrec try_down :: "(nat \<Rightarrow> nat option) \<Rightarrow> nat \<Rightarrow> nat option" where
  "try_down f 0 = None"
| "try_down f (Suc k) = (case f (Suc k) of Some r \<Rightarrow> Some r | None \<Rightarrow> try_down f k)"

text \<open>\<open>match_here ic p s\<close>: the length of the match of \<open>p\<close> at the start of \<open>s\<close>, if any.\<close>

primrec match_here :: "bool \<Rightarrow> pattern \<Rightarrow> string \<Rightarrow> nat option" where
  "match_here ic [] s = Some 0"
| "match_here ic (it # p) s =
     (case it of
        One a \<Rightarrow>
          (case s of
             [] \<Rightarrow> None
           | c # cs \<Rightarrow> if atom_match ic a c then map_option Suc (match_here ic p cs) else None)
      | Plus a \<Rightarrow>
          try_down (\<lambda>k. map_option (\<lambda>m. k + m) (match_here ic p (drop k s)))
            (length (takeWhile (atom_match ic a) s)))"

text \<open>
  The scan shared by \<open>re.findall\<close> and \<open>re.sub\<close>: the matches left to right without
  overlap, each given by its start position and its text; after a match the scan goes on
  at its end, and where nothing matches one character further. No pattern of the service
  matches the empty string; for such patterns this is the scan of \<open>re\<close>.
\<close>

function finditer :: "bool \<Rightarrow> pattern \<Rightarrow> nat \<Rightarrow> string \<Rightarrow> (nat \<times> string) list" where
  "finditer ic p pos s =
     (if s = [] then []
      else (case match_here ic p s of
              None \<Rightarrow> finditer ic p (pos + 1) (tl s)
            | Some m \<Rightarrow> (pos, take m s) # finditer ic p (pos + max 1 m) (drop (max 1 m) s)))"
  by pat_completeness auto
termination
  by (relation "measure (\<lambda>(ic, p, pos, s). length s)") auto

declare finditer.simps [simp del]

definition findall :: "bool \<Rightarrow> pattern \<Rightarrow> string \<Rightarrow> string list" where
  "findall ic p s = map snd (finditer ic p 0 s)"

text \<open>
  \<open>re.sub\<close> with the replacement given as a function of the matched text (the template
  \<open>". \1"\<close> of the service is such a function, see \<open>clean_text_for_tts\<close>).
\<close>

function re_sub :: "bool \<Rightarrow> pattern \<Rightarrow> (string \<Rightarrow> string) \<Rightarrow> string \<Rightarrow> string" where
  "re_sub ic p repl s =
     (if s = [] then []
      else (case match_here ic p s of
              None \<Rightarrow> hd s # re_sub ic p repl (tl s)
            | Some m \<Rightarrow>
                repl (take m s) @ (if m = 0 then [hd s] else []) @
                re_sub ic p repl (drop (max 1 m) s)))"
  by pat_completeness auto
termination
  by (relation "measure (\<lambda>(ic, p, repl, s). length s)") auto

declare re_sub.simps [simp del]

definition lits :: "string \<Rightarrow> pattern" where
  "lits w = map (\<lambda>c. One (Lit c)) w"

section \<open>The data model\<close>

text \<open>The dictionaries that \<open>extract_text_from_pdf\<close> returns.\<close>

record RawSegment =
  raw_text :: string
  raw_page :: int
  raw_total_pages :: int

text \<open>The dictionary that \<open>detect_figure_references\<close> returns.\<close>

record RefInfo =
  info_has_figure_reference :: bool
  info_figure_references :: "string list"

record TextSegment =
  seg_text :: string
  page :: int
  has_figure_reference :: bool
  figure_references :: "string list"

record ProcessingStatus =
  stage :: string
  progress :: int
  message :: "string option"

record ProcessingResult =
  job_id :: string
  segments :: "TextSegment list"
  total_pages :: int
  status :: string

section \<open>Figure references\<close>

definition figure_patterns :: "pattern list" where
  "figure_patterns =
     [One (Cls ''Ff'') # lits ''igure'' @ [Plus Space, Plus Digit],
      One (Cls ''Tt'') # lits ''able'' @ [Plus Space, Plus Digit],
      One (Cls ''Cc'') # lits ''hart'' @ [Plus Space, Plus Digit],
      One (Cls ''Gg'') # lits ''raph'' @ [Plus Space, Plus Digit],
      One (Cls ''Dd'') # lits ''iagram'' @ [Plus Space, Plus Digit],
      lits ''see'' @ [Plus Space] @ lits ''above'',
      lits ''see'' @ [Plus Space] @ lits ''below'',
      lits ''as'' @ [Plus Space] @ lits ''shown'',
      lits ''illustrated'' @ [Plus Space] @ lits ''in'']"

text \<open>The loop of \<open>detect_figure_references\<close>: \<open>references.extend(matches)\<close> per pattern.\<close>

fun collect_references :: "pattern list \<Rightarrow> string \<Rightarrow> string list \<Rightarrow> string list" where
  "collect_references [] t references = references"
| "collect_references (p # ps) t references =
     collect_references ps t (references @ findall True p t)"

definition detect_figure_references :: "string \<Rightarrow> RefInfo" where
  "detect_figure_references t =
     (let references = collect_references figure_patterns t []
      in \<lparr>info_has_figure_reference = length references > 0,
          info_figure_references = references\<rparr>)"

section \<open>The text cleaner\<close>

text \<open>
  The abbreviation dictionary, in its insertion order (the order in which a Python
  \<open>dict\<close> is iterated).
\<close>

definition abbreviations :: "(string \<times> string) list" where
  "abbreviations =
     [(''et al.'', ''et al''),
      (''e.g.'', ''for example''),
      (''i.e.'', ''that is''),
      (''vs.'', ''versus''),
      (''etc.'', ''et cetera'')]"

fun expand_abbreviations :: "(string \<times> string) list \<Rightarrow> string \<Rightarrow> string" where
  "expand_abbreviations [] t = t"
| "expand_abbreviations ((abbr, replacement) # rest) t =
     expand_abbreviations rest (replace abbr replacement t)"

text \<open>
  The three substitutions of \<open>clean_text_for_tts\<close>. In the templates \<open>". \1"\<close> and
  \<open>", \1"\<close> the group is the second character of the two-character match.
\<close>

definition collapse_whitespace :: "string \<Rightarrow> string" where
  "collapse_whitespace t = re_sub False [Plus Space] (\<lambda>m. '' '') t"

definition pause_after :: "char \<Rightarrow> string \<Rightarrow> string" where
  "pause_after c t =
     re_sub False [One (Lit c), One (Range CHR ''A'' CHR ''Z'')] (\<lambda>m. [c, CHR '' ''] @ drop 1 m) t"

definition clean_text_for_tts :: "string \<Rightarrow> string" where
  "clean_text_for_tts t =
     (let t1 = collapse_whitespace t;
          t2 = pause_after CHR ''.'' t1;
          t3 = pause_after CHR '','' t2;
          t4 = expand_abbreviations abbreviations t3
      in strip t4)"

section \<open>The PDF segmenter\<close>

text \<open>
  What \<open>pdfplumber\<close> gives for a file: an exception (its message), or the pages, each
  with the text \<open>extract_text()\<close> returns for it (\<open>None\<close> or a string).
\<close>

type_synonym pdf = "string + string option list"

definition newline :: char where
  "newline = CHR 0x0A"

definition paragraphs :: "string \<Rightarrow> string list" where
  "paragraphs t = map strip (filter (\<lambda>p. strip p \<noteq> []) (split [newline, newline] t))"

fun append_paragraphs :: "int \<Rightarrow> int \<Rightarrow> string list \<Rightarrow> RawSegment list \<Rightarrow> RawSegment list" where
  "append_paragraphs num_pages page_num [] segs = segs"
| "append_paragraphs num_pages page_num (paragraph # rest) segs =
     append_paragraphs num_pages page_num rest
       (if length paragraph > 50
        then segs @ [\<lparr>raw_text = paragraph, raw_page = page_num, raw_total_pages = num_pages\<rparr>]
        else segs)"

text \<open>One iteration of the loop over the pages.\<close>

definition extract_page :: "int \<Rightarrow> int \<Rightarrow> string option \<Rightarrow> RawSegment list \<Rightarrow> RawSegment list" where
  "extract_page num_pages page_num page_text segs =
     (case page_text of
        None \<Rightarrow> segs
      | Some t \<Rightarrow>
          if t \<noteq> [] \<and> strip t \<noteq> []
          then append_paragraphs num_pages page_num (paragraphs t) segs
          else segs)"

fun extract_pages :: "int \<Rightarrow> int \<Rightarrow> string option list \<Rightarrow> RawSegment list \<Rightarrow> RawSegment list" where
  "extract_pages num_pages page_num [] segs = segs"
| "extract_pages num_pages page_num (page_text # pages) segs =
     extract_pages num_pages (page_num + 1) pages (extract_page num_pages page_num page_text segs)"

definition extract_text_from_pdf :: "pdf \<Rightarrow> string + RawSegment list" where
  "extract_text_from_pdf f =
     (case f of
        Inl e \<Rightarrow> Inl e
      | Inr pages \<Rightarrow> Inr (extract_pages (int (length pages)) 1 pages []))"

section \<open>The segment processor\<close>

fun process_loop :: "RawSegment list \<Rightarrow> TextSegment list \<Rightarrow> TextSegment list" where
  "process_loop [] processed_segments = processed_segments"
| "process_loop (segment # rest) processed_segments =
     (let ref_info = detect_figure_references (raw_text segment);
          cleaned_text = clean_text_for_tts (raw_text segment)
      in process_loop rest
           (processed_segments @
            [\<lparr>seg_text = cleaned_text,
              page = raw_page segment,
              has_figure_reference = info_has_figure_reference ref_info,
              figure_references = info_figure_references ref_info\<rparr>]))"

definition process_text_segments :: "RawSegment list \<Rightarrow> TextSegment list" where
  "process_text_segments segs = process_loop segs []"

section \<open>The audio synthesizer\<close>

datatype error = HTTPException int string | Exception string | IndexError

text \<open>
  The loaded model is its method \<open>tts_to_file(text, file_path)\<close>: \<open>None\<close> when the file
  was written, the message of the exception when it raises. The global \<open>tts_model\<close> is
  \<open>None\<close> when no model could be loaded at startup.
\<close>

type_synonym tts = "string \<Rightarrow> string \<Rightarrow> string option"

definition segment_file :: "nat \<Rightarrow> string" where
  "segment_file segment_index = ''segment_'' @ format_04d segment_index @ ''.wav''"

definition text_to_speak :: "TextSegment \<Rightarrow> string" where
  "text_to_speak segment =
     (if has_figure_reference segment
      then (''Please refer to '' @ join '', '' (figure_references segment) @
            '' mentioned in this section. '') @ seg_text segment
      else seg_text segment)"

definition generate_audio_for_segment ::
  "tts option \<Rightarrow> TextSegment \<Rightarrow> string \<Rightarrow> nat \<Rightarrow> error + string" where
  "generate_audio_for_segment tts_model segment output_dir segment_index =
     (case tts_model of
        None \<Rightarrow> Inl (HTTPException 500 ''TTS model not available'')
      | Some tts_to_file \<Rightarrow>
          (let output_file = path_join output_dir (segment_file segment_index)
           in case tts_to_file (text_to_speak segment) output_file of
                Some e \<Rightarrow> Inl (Exception e)
              | None \<Rightarrow> Inr output_file))"

section \<open>The registries and the job orchestrator\<close>

datatype entry = Status ProcessingStatus | Result ProcessingResult

record world =
  processing_jobs :: "string \<rightharpoonup> entry"
  audio_files :: "string \<rightharpoonup> string list"

definition set_status :: "string \<Rightarrow> string \<Rightarrow> int \<Rightarrow> world \<Rightarrow> world" where
  "set_status job st pr w =
     w\<lparr>processing_jobs :=
         (processing_jobs w)(job \<mapsto> Status \<lparr>stage = st, progress = pr, message = None\<rparr>)\<rparr>"

text \<open>
  \<open>int(60 + (30 * (i + 1) / total_segments))\<close>. The division is Python's true division
  and the model takes the integer part of the exact quotient; the rounded double has the
  same integer part for every segment count below \<open>2 ^ 40\<close>.
\<close>

definition segment_progress :: "nat \<Rightarrow> nat \<Rightarrow> int" where
  "segment_progress i total_segments =
     \<lfloor>60 + (30 * (rat_of_nat i + 1)) / rat_of_nat total_segments\<rfloor>"

definition segment_stage :: "nat \<Rightarrow> nat \<Rightarrow> string" where
  "segment_stage i total_segments =
     ''Generating audio segment '' @ str_nat (i + 1) @ ''/'' @ str_nat total_segments @ ''...''"

text \<open>
  One iteration of the synthesis loop, with its \<open>try\<close>: an exception of the synthesizer,
  a missing audio list (\<open>KeyError\<close>) or a division by zero leaves the loop body where it
  is raised, and the handler goes on with the next segment.
\<close>

definition synthesis_step ::
  "tts option \<Rightarrow> string \<Rightarrow> string \<Rightarrow> nat \<Rightarrow> world \<Rightarrow> nat \<times> TextSegment \<Rightarrow> world" where
  "synthesis_step tts_model job audio_dir total_segments w x =
     (case generate_audio_for_segment tts_model (snd x) audio_dir (fst x) of
        Inl e \<Rightarrow> w
      | Inr audio_file \<Rightarrow>
          (case audio_files w job of
             None \<Rightarrow> w
           | Some files \<Rightarrow>
               (let w' = w\<lparr>audio_files := (audio_files w)(job \<mapsto> files @ [audio_file])\<rparr>
                in if total_segments = 0 then w'
                   else set_status job (segment_stage (fst x) total_segments)
                          (segment_progress (fst x) total_segments) w')))"

definition synthesis_loop ::
  "tts option \<Rightarrow> string \<Rightarrow> string \<Rightarrow> nat \<Rightarrow> world \<Rightarrow> (nat \<times> TextSegment) list \<Rightarrow> world" where
  "synthesis_loop tts_model job audio_dir total_segments w xs =
     foldl (synthesis_step tts_model job audio_dir total_segments) w xs"

text \<open>The state in which the synthesis loop starts.\<close>

definition start_synthesis :: "string \<Rightarrow> world \<Rightarrow> world" where
  "start_synthesis job w =
     (set_status job ''Generating AI voice...'' 60 w)\<lparr>audio_files := (audio_files w)(job \<mapsto> [])\<rparr>"

definition first_total_pages :: "RawSegment list \<Rightarrow> int" where
  "first_total_pages segs = (case segs of [] \<Rightarrow> 0 | s # rest \<Rightarrow> raw_total_pages s)"

text \<open>
  \<open>process_pdf_background\<close>: the world after the task has run. \<open>audio_dir\<close> is the
  directory \<open>tempfile.mkdtemp()\<close> returns.
\<close>

definition process_pdf_background ::
  "tts option \<Rightarrow> string \<Rightarrow> string \<Rightarrow> pdf \<Rightarrow> world \<Rightarrow> world" where
  "process_pdf_background tts_model audio_dir job f w =
     (let w1 = set_status job ''Extracting text from PDF...'' 20 w
      in case extract_text_from_pdf f of
           Inl e \<Rightarrow>
             w1\<lparr>processing_jobs :=
                 (processing_jobs w1)(job \<mapsto>
                    Status \<lparr>stage = ''Error: '' @ e, progress = 0, message = Some e\<rparr>)\<rparr>
         | Inr segs \<Rightarrow>
             (let w2 = set_status job ''Analyzing content for voice processing...'' 40 w1;
                  processed_segments = process_text_segments segs;
                  w3 = start_synthesis job w2;
                  total_segments = length processed_segments;
                  w4 = synthesis_loop tts_model job audio_dir total_segments w3
                         (enumerate 0 processed_segments);
                  w5 = set_status job ''Finalizing...'' 100 w4
              in w5\<lparr>processing_jobs :=
                     (processing_jobs w5)(job \<mapsto>
                        Result \<lparr>job_id = job,
                                segments = processed_segments,
                                total_pages = first_total_pages segs,
                                status = ''completed''\<rparr>)\<rparr>))"

section \<open>Fetching the audio of a segment\<close>

record FileResponse =
  path :: string
  media_type :: string
  filename :: string

text \<open>
  \<open>get_audio_segment\<close>; \<open>exists\<close> is \<open>os.path.exists\<close>. A list is indexed as Python
  does it: a negative index counts from the end, and an index outside the list raises
  \<open>IndexError\<close>.
\<close>

definition getitem :: "'a list \<Rightarrow> int \<Rightarrow> error + 'a" where
  "getitem xs i =
     (if i < - int (length xs) \<or> int (length xs) \<le> i then Inl IndexError
      else if i < 0 then Inr (xs ! nat (int (length xs) + i))
      else Inr (xs ! nat i))"

definition get_audio_segment ::
  "world \<Rightarrow> (string \<Rightarrow> bool) \<Rightarrow> string \<Rightarrow> int \<Rightarrow> error + FileResponse" where
  "get_audio_segment w exists job segment_index =
     (case audio_files w job of
        None \<Rightarrow> Inl (HTTPException 404 ''Audio files not found'')
      | Some files \<Rightarrow>
          if segment_index \<ge> int (length files)
          then Inl (HTTPException 404 ''Segment not found'')
          else (case getitem files segment_index of
                  Inl e \<Rightarrow> Inl e
                | Inr audio_file \<Rightarrow>
                    if \<not> exists audio_file
                    then Inl (HTTPException 404 ''Audio file not found'')
                    else Inr \<lparr>path = audio_file,
                              media_type = ''audio/wav'',
                              filename = ''segment_'' @ str_int segment_index @ ''.wav''\<rparr>))"

section \<open>Notions used to state the properties\<close>

text \<open>Whether the synthesis of the segment \<open>snd x\<close> at index \<open>fst x\<close> returns a file.\<close>

definition succeeded :: "tts option \<Rightarrow> string \<Rightarrow> nat \<times> TextSegment \<Rightarrow> bool" where
  "succeeded tts_model audio_dir x =
     (\<not> isl (generate_audio_for_segment tts_model (snd x) audio_dir (fst x)))"

definition audio_path :: "string \<Rightarrow> nat \<Rightarrow> string" where
  "audio_path audio_dir i = path_join audio_dir (segment_file i)"

text \<open>The world after the first \<open>k\<close> segments of a job have been attempted.\<close>

definition after_attempts ::
  "tts option \<Rightarrow> string \<Rightarrow> string \<Rightarrow> TextSegment list \<Rightarrow> world \<Rightarrow> nat \<Rightarrow> world" where
  "after_attempts tts_model job audio_dir processed_segments w k =
     synthesis_loop tts_model job audio_dir (length processed_segments) (start_synthesis job w)
       (take k (enumerate 0 processed_segments))"

section \<open>The synthesis loop and the final state of a job\<close>

lemma generate_Inr: "generate_audio_for_segment tts seg dir i = Inr f \<Longrightarrow> f = audio_path dir i"
  by (auto simp: generate_audio_for_segment_def audio_path_def Let_def split: option.splits)

lemma succeeded_iff: "succeeded tts dir x = (generate_audio_for_segment tts (snd x) dir (fst x) = Inr (audio_path dir (fst x)))"
  by (cases "generate_audio_for_segment tts (snd x) dir (fst x)") (auto simp: succeeded_def dest: generate_Inr)

lemma step_failed: "\<not> succeeded tts dir x \<Longrightarrow> synthesis_step tts job dir n w x = w"
  by (auto simp: succeeded_def synthesis_step_def split: sum.splits)

lemma step_audio:
  "succeeded tts dir x \<Longrightarrow> audio_files w job = Some fs \<Longrightarrow>
   audio_files (synthesis_step tts job dir n w x) = (audio_files w)(job \<mapsto> fs @ [audio_path dir (fst x)])"
  by (auto simp: succeeded_iff synthesis_step_def set_status_def Let_def)

lemma step_status:
  "succeeded tts dir x \<Longrightarrow> audio_files w job = Some fs \<Longrightarrow> 0 < n \<Longrightarrow>
   processing_jobs (synthesis_step tts job dir n w x) =
     (processing_jobs w)(job \<mapsto> Status \<lparr>stage = segment_stage (fst x) n, progress = segment_progress (fst x) n, message = None\<rparr>)"
  by (auto simp: succeeded_iff synthesis_step_def set_status_def Let_def)

lemma loop_snoc: "synthesis_loop tts job dir n w (xs @ [x]) = synthesis_step tts job dir n (synthesis_loop tts job dir n w xs) x"
  by (simp add: synthesis_loop_def)

lemma loop_audio:
  "audio_files w job = Some fs \<Longrightarrow>
   audio_files (synthesis_loop tts job dir n w xs) =
     (audio_files w)(job \<mapsto> fs @ map (\<lambda>x. audio_path dir (fst x)) (filter (succeeded tts dir) xs))"
proof (induction xs rule: rev_induct)
  case Nil
  then show ?case by (auto simp: synthesis_loop_def)
next
  case (snoc x xs)
  show ?case
  proof (cases "succeeded tts dir x")
    case True
    then show ?thesis using snoc by (auto simp: loop_snoc step_audio fun_eq_iff)
  next
    case False
    then show ?thesis using snoc by (simp add: loop_snoc step_failed)
  qed
qed

lemma loop_jobs_other:
  "j \<noteq> job \<Longrightarrow> processing_jobs (synthesis_loop tts job dir n w xs) j = processing_jobs w j"
proof (induction xs rule: rev_induct)
  case Nil
  then show ?case by (simp add: synthesis_loop_def)
next
  case (snoc x xs)
  then show ?case
    by (auto simp: loop_snoc synthesis_step_def set_status_def Let_def split: sum.splits option.splits)
qed

lemma start_audio: "audio_files (start_synthesis job w) = (audio_files w)(job \<mapsto> [])"
  by (simp add: start_synthesis_def set_status_def)

lemma start_jobs: "processing_jobs (start_synthesis job w) = (processing_jobs w)(job \<mapsto> Status \<lparr>stage = ''Generating AI voice...'', progress = 60, message = None\<rparr>)"
  by (simp add: start_synthesis_def set_status_def)

lemma after_attempts_audio:
  "audio_files (after_attempts tts job dir segs w k) =
     (audio_files w)(job \<mapsto> map (\<lambda>x. audio_path dir (fst x)) (filter (succeeded tts dir) (take k (enumerate 0 segs))))"
  by (simp add: after_attempts_def loop_audio[where fs="[]"] start_audio)

lemma segment_progress_div: "0 < n \<Longrightarrow> segment_progress i n = 60 + (30 * (int i + 1)) div int n"
proof -
  have "(30 * (rat_of_nat i + 1)) / rat_of_nat n = rat_of_int (30 * (int i + 1)) / rat_of_int (int n)"
    by simp
  then have "\<lfloor>(30 * (rat_of_nat i + 1)) / rat_of_nat n\<rfloor> = (30 * (int i + 1)) div int n"
    by (simp only: floor_divide_of_int_eq)
  then show ?thesis
    unfolding segment_progress_def by (simp add: add.commute)
qed


lemma set_status_audio [simp]: "audio_files (set_status job st pr w) = audio_files w"
  by (simp add: set_status_def)

lemma set_status_jobs [simp]:
  "processing_jobs (set_status job st pr w) =
     (processing_jobs w)(job \<mapsto> Status \<lparr>stage = st, progress = pr, message = None\<rparr>)"
  by (simp add: set_status_def)

lemma final_audio:
  assumes "extract_text_from_pdf f = Inr segs"
  shows "audio_files (process_pdf_background tts dir job f w) =
     (audio_files w)(job \<mapsto> map (\<lambda>x. audio_path dir (fst x))
        (filter (succeeded tts dir) (enumerate 0 (process_text_segments segs))))"
  using assms
  by (simp add: process_pdf_background_def Let_def loop_audio[where fs="[]"] start_audio)

lemma final_jobs:
  assumes "extract_text_from_pdf f = Inr segs"
  shows "processing_jobs (process_pdf_background tts dir job f w) =
     (processing_jobs w)(job \<mapsto> Result \<lparr>job_id = job, segments = process_text_segments segs,
        total_pages = first_total_pages segs, status = ''completed''\<rparr>)"
proof (rule ext)
  fix j
  show "processing_jobs (process_pdf_background tts dir job f w) j =
     ((processing_jobs w)(job \<mapsto> Result \<lparr>job_id = job, segments = process_text_segments segs,
        total_pages = first_total_pages segs, status = ''completed''\<rparr>)) j"
    using assms
    by (cases "j = job")
       (simp_all add: process_pdf_background_def Let_def loop_jobs_other start_jobs)
qed

lemma failed_jobs:
  assumes "extract_text_from_pdf f = Inl e"
  shows "processing_jobs (process_pdf_background tts dir job f w) job =
     Some (Status \<lparr>stage = ''Error: '' @ e, progress = 0, message = Some e\<rparr>)"
  using assms by (simp add: process_pdf_background_def Let_def)

lemma process_loop_map:
  "process_loop segs acc = acc @ map (\<lambda>s.
      \<lparr>seg_text = clean_text_for_tts (raw_text s), page = raw_page s,
        has_figure_reference = info_has_figure_reference (detect_figure_references (raw_text s)),
        figure_references = info_figure_references (detect_figure_references (raw_text s))\<rparr>) segs"
  by (induction segs arbitrary: acc) (simp_all add: Let_def)

lemma process_text_segments_length: "length (process_text_segments segs) = length segs"
  by (simp add: process_text_segments_def process_loop_map)

lemma filter_enumerate_sorted: "sorted_wrt (<) (map fst (filter P (take k (enumerate n xs))))"
proof -
  have "sorted_wrt (<) (map fst (enumerate n xs))"
    by (simp add: strict_sorted_iff)
  then have "sorted_wrt (<) (take k (map fst (enumerate n xs)))"
    by (rule sorted_wrt_take)
  then have "sorted_wrt (\<lambda>x y. fst x < fst y) (take k (enumerate n xs))"
    by (simp only: take_map sorted_wrt_map)
  then have "sorted_wrt (\<lambda>x y. fst x < fst y) (filter P (take k (enumerate n xs)))"
    by (rule sorted_wrt_filter)
  then show ?thesis
    by (simp only: sorted_wrt_map)
qed

lemma take_Suc_enumerate:
  "k < length xs \<Longrightarrow> take (Suc k) (enumerate 0 xs) = take k (enumerate 0 xs) @ [(k, xs ! k)]"
  by (simp add: take_Suc_conv_app_nth nth_enumerate_eq)

lemma after_attempts_Suc:
  "k < length segs \<Longrightarrow>
   after_attempts tts job dir segs w (Suc k) =
     synthesis_step tts job dir (length segs) (after_attempts tts job dir segs w k) (k, segs ! k)"
  by (simp add: after_attempts_def take_Suc_enumerate loop_snoc)

lemma segment_progress_mono:
  "i \<le> j \<Longrightarrow> segment_progress i n \<le> segment_progress j n"
proof (cases "n = 0")
  case True
  then show ?thesis by (simp add: segment_progress_def)
next
  case False
  assume "i \<le> j"
  then have "30 * (int i + 1) \<le> 30 * (int j + 1)" by simp
  then have "(30 * (int i + 1)) div int n \<le> (30 * (int j + 1)) div int n"
    using False by (intro zdiv_mono1) simp_all
  then show ?thesis using False by (simp add: segment_progress_div)
qed

lemma segment_progress_bounds:
  assumes "k < n"
  shows "60 \<le> segment_progress k n" and "segment_progress k n \<le> 90"
proof -
  have n: "0 < n" using assms by simp
  have "0 \<le> (30 * (int k + 1)) div int n"
    by (simp add: pos_imp_zdiv_nonneg_iff n)
  then show "60 \<le> segment_progress k n" using n by (simp add: segment_progress_div)
  have "30 * (int k + 1) \<le> 30 * int n" using assms by simp
  then have "(30 * (int k + 1)) div int n \<le> (30 * int n) div int n"
    using n by (intro zdiv_mono1) simp_all
  then show "segment_progress k n \<le> 90" using n by (simp add: segment_progress_div)
qed

section \<open>Claims about the job orchestrator\<close>

lemma none_never_succeeds: "\<not> succeeded None dir x"
  by (simp add: succeeded_def generate_audio_for_segment_def)

lemma extract_sixty:
  "extract_text_from_pdf (Inr [Some (replicate 60 CHR ''a'')]) =
     Inr [\<lparr>raw_text = replicate 60 CHR ''a'', raw_page = 1, raw_total_pages = 1\<rparr>]"
  by code_simp

text \<open>
  Claim C10. When no TTS model could be loaded (\<open>tts_model\<close> is \<open>None\<close>), a job whose
  document can be read still runs to completion: every call of the synthesizer raises the
  model-unavailable error, the handler of the loop catches it, the registry entry of the
  job ends as a result with status \<open>completed\<close> that carries one processed segment per
  raw segment, and the audio list of the job stays empty.
\<close>

theorem model_unavailable_job_completes:
  assumes "extract_text_from_pdf f = Inr segs"
  shows "processing_jobs (process_pdf_background None dir job f w) job =
           Some (Result \<lparr>job_id = job, segments = process_text_segments segs,
                   total_pages = first_total_pages segs, status = ''completed''\<rparr>)
         \<and> length (process_text_segments segs) = length segs
         \<and> audio_files (process_pdf_background None dir job f w) job = Some []
         \<and> generate_audio_for_segment None seg dir i =
             Inl (HTTPException 500 ''TTS model not available'')"
  using assms
  by (simp add: final_jobs final_audio none_never_succeeds process_text_segments_length
      generate_audio_for_segment_def)

theorem model_unavailable_job_completes_witness:
  "processing_jobs
     (process_pdf_background None ''/tmp/a'' ''j'' (Inr [Some (replicate 60 CHR ''a'')])
        \<lparr>processing_jobs = Map.empty, audio_files = Map.empty\<rparr>) ''j'' =
     Some (Result \<lparr>job_id = ''j'',
             segments = process_text_segments
               [\<lparr>raw_text = replicate 60 CHR ''a'', raw_page = 1, raw_total_pages = 1\<rparr>],
             total_pages = 1, status = ''completed''\<rparr>)
   \<and> length (process_text_segments
        [\<lparr>raw_text = replicate 60 CHR ''a'', raw_page = 1, raw_total_pages = 1\<rparr>]) = 1
   \<and> audio_files
     (process_pdf_background None ''/tmp/a'' ''j'' (Inr [Some (replicate 60 CHR ''a'')])
        \<lparr>processing_jobs = Map.empty, audio_files = Map.empty\<rparr>) ''j'' = Some []"
  using model_unavailable_job_completes [OF extract_sixty, of "''/tmp/a''" "''j''"
      "\<lparr>processing_jobs = Map.empty, audio_files = Map.empty\<rparr>"]
  by (simp add: first_total_pages_def)

lemma succeeded_Some:
  "succeeded (Some t) dir x = (t (text_to_speak (snd x)) (audio_path dir (fst x)) = None)"
  by (simp add: succeeded_def generate_audio_for_segment_def Let_def audio_path_def
      split: option.splits)

lemma audio_path_examples:
  "audio_path ''/tmp/a'' 0 = ''/tmp/a/segment_0000.wav''"
  "audio_path ''/tmp/a'' 1 = ''/tmp/a/segment_0001.wav''"
  "audio_path ''/tmp/a'' (Suc 0) = ''/tmp/a/segment_0001.wav''"
  "audio_path ''/tmp/a'' 2 = ''/tmp/a/segment_0002.wav''"
  by code_simp+

lemma extract_three:
  "extract_text_from_pdf
     (Inr [Some (replicate 60 CHR ''a'' @ [newline, newline] @ replicate 60 CHR ''b''),
           Some (replicate 60 CHR ''c'')]) =
   Inr [\<lparr>raw_text = replicate 60 CHR ''a'', raw_page = 1, raw_total_pages = 2\<rparr>,
        \<lparr>raw_text = replicate 60 CHR ''b'', raw_page = 1, raw_total_pages = 2\<rparr>,
        \<lparr>raw_text = replicate 60 CHR ''c'', raw_page = 2, raw_total_pages = 2\<rparr>]"
  by code_simp

lemma length3: "length xs = 3 \<Longrightarrow> xs = [xs ! 0, xs ! 1, xs ! 2]"
  by (cases xs; cases "tl xs"; cases "tl (tl xs)") auto

lemma enumerate3: "enumerate 0 [a, b, c] = [(0, a), (1, b), (2, c)]"
  by (simp add: enumerate_eq_zip upt_rec)

text \<open>
  Claim C2. When the document can be read, the audio list of the job after the task has
  run holds exactly the output paths of the segments whose synthesis succeeded, in the
  order of the segments and with nothing in the place of a failed one, and the registry
  entry of the job is a result with status \<open>completed\<close>. In particular, with three
  segments of which the second fails and the other two succeed, the audio list is the two
  paths of the first and the third segment.
\<close>

theorem partial_failure_keeps_successes:
  assumes "extract_text_from_pdf f = Inr segs"
  shows "audio_files (process_pdf_background tts dir job f w) job =
           Some (map (audio_path dir)
                  (map fst (filter (succeeded tts dir) (enumerate 0 (process_text_segments segs)))))
         \<and> (\<exists>r. processing_jobs (process_pdf_background tts dir job f w) job = Some (Result r)
                \<and> status r = ''completed'')
         \<and> (length segs = 3
              \<and> succeeded tts dir (0, process_text_segments segs ! 0)
              \<and> \<not> succeeded tts dir (1, process_text_segments segs ! 1)
              \<and> succeeded tts dir (2, process_text_segments segs ! 2)
            \<longrightarrow> audio_files (process_pdf_background tts dir job f w) job =
                  Some [audio_path dir 0, audio_path dir 2])"
proof -
  let ?p = "process_text_segments segs"
  have a: "audio_files (process_pdf_background tts dir job f w) job =
           Some (map (audio_path dir) (map fst (filter (succeeded tts dir) (enumerate 0 ?p))))"
    using assms by (simp add: final_audio comp_def)
  have b: "\<exists>r. processing_jobs (process_pdf_background tts dir job f w) job = Some (Result r)
                \<and> status r = ''completed''"
    using assms by (simp add: final_jobs)
  have c: "audio_files (process_pdf_background tts dir job f w) job =
             Some [audio_path dir 0, audio_path dir 2]"
    if "length segs = 3" "succeeded tts dir (0, ?p ! 0)" "\<not> succeeded tts dir (1, ?p ! 1)"
       "succeeded tts dir (2, ?p ! 2)"
  proof -
    have "length ?p = 3" using that(1) by (simp add: process_text_segments_length)
    then have "?p = [?p ! 0, ?p ! 1, ?p ! 2]" by (rule length3)
    then have "enumerate 0 ?p = [(0, ?p ! 0), (1, ?p ! 1), (2, ?p ! 2)]"
      using enumerate3 by metis
    then show ?thesis using a that by simp
  qed
  show ?thesis using a b c by blast
qed

theorem partial_failure_keeps_successes_witness:
  "audio_files
     (process_pdf_background
        (Some (\<lambda>t p. if p = ''/tmp/a/segment_0001.wav'' then Some ''synthesis failed'' else None))
        ''/tmp/a'' ''j''
        (Inr [Some (replicate 60 CHR ''a'' @ [newline, newline] @ replicate 60 CHR ''b''),
              Some (replicate 60 CHR ''c'')])
        \<lparr>processing_jobs = Map.empty, audio_files = Map.empty\<rparr>) ''j'' =
     Some [''/tmp/a/segment_0000.wav'', ''/tmp/a/segment_0002.wav'']"
proof -
  note t = partial_failure_keeps_successes [OF extract_three,
      of "Some (\<lambda>t p. if p = ''/tmp/a/segment_0001.wav'' then Some ''synthesis failed'' else None)"
         "''/tmp/a''" "''j''" "\<lparr>processing_jobs = Map.empty, audio_files = Map.empty\<rparr>"]
  from t [THEN conjunct2, THEN conjunct2] show ?thesis
    by (simp add: succeeded_Some audio_path_examples)
qed

text \<open>
  Claim C3. Whenever the task leaves a result in the registry, the document was read, the
  result has status \<open>completed\<close> and carries the processed segments, and its
  \<open>total_pages\<close> is the \<open>total_pages\<close> of the first raw segment when there is one; when
  the document gave no raw segment, \<open>total_pages\<close> is 0 and the segment list is empty.
\<close>

theorem total_pages_from_first_segment:
  assumes "processing_jobs (process_pdf_background tts dir job f w) job = Some (Result r)"
  shows "\<exists>segs. extract_text_from_pdf f = Inr segs
           \<and> status r = ''completed''
           \<and> segments r = process_text_segments segs
           \<and> (segs \<noteq> [] \<longrightarrow> total_pages r = raw_total_pages (hd segs))
           \<and> (segs = [] \<longrightarrow> total_pages r = 0 \<and> segments r = [])"
proof (cases "extract_text_from_pdf f")
  case (Inl e)
  then show ?thesis using assms by (simp add: failed_jobs)
next
  case (Inr segs)
  then have "r = \<lparr>job_id = job, segments = process_text_segments segs,
                   total_pages = first_total_pages segs, status = ''completed''\<rparr>"
    using assms by (simp add: final_jobs)
  then show ?thesis using Inr
    by (cases segs) (simp_all add: first_total_pages_def process_text_segments_def)
qed

lemma extract_short:
  "extract_text_from_pdf (Inr [Some ''A short page.'']) = Inr []"
  by code_simp

theorem total_pages_from_first_segment_witness:
  "(\<exists>r. processing_jobs
          (process_pdf_background None ''/tmp/a'' ''j'' (Inr [Some (replicate 60 CHR ''a'')])
             \<lparr>processing_jobs = Map.empty, audio_files = Map.empty\<rparr>) ''j'' = Some (Result r)
        \<and> total_pages r = 1 \<and> status r = ''completed'')
   \<and> (\<exists>r. processing_jobs
          (process_pdf_background None ''/tmp/a'' ''j'' (Inr [Some ''A short page.''])
             \<lparr>processing_jobs = Map.empty, audio_files = Map.empty\<rparr>) ''j'' = Some (Result r)
        \<and> total_pages r = 0 \<and> segments r = [] \<and> status r = ''completed'')"
proof -
  let ?w = "\<lparr>processing_jobs = Map.empty, audio_files = Map.empty\<rparr>"
  obtain r1 where r1: "processing_jobs
      (process_pdf_background None ''/tmp/a'' ''j'' (Inr [Some (replicate 60 CHR ''a'')]) ?w) ''j'' =
      Some (Result r1)"
    by (simp add: final_jobs [OF extract_sixty])
  obtain r0 where r0: "processing_jobs
      (process_pdf_background None ''/tmp/a'' ''j'' (Inr [Some ''A short page.'']) ?w) ''j'' =
      Some (Result r0)"
    by (simp add: final_jobs [OF extract_short])
  have "total_pages r1 = 1 \<and> status r1 = ''completed''"
    using total_pages_from_first_segment [OF r1] by (auto simp: extract_sixty)
  moreover have "total_pages r0 = 0 \<and> segments r0 = [] \<and> status r0 = ''completed''"
    using total_pages_from_first_segment [OF r0] by (auto simp: extract_short)
  ultimately show ?thesis using r1 r0 by blast
qed


lemma digit_char_isdigit: "d < 10 \<Longrightarrow> isdigit (digit_char d)"
  by (simp add: isdigit_def digit_char_def)

lemma str_nat_digits: "c \<in> set (str_nat n) \<Longrightarrow> isdigit c"
proof (induction n arbitrary: c rule: str_nat.induct)
  case (1 n)
  show ?case
  proof (cases "n < 10")
    case True
    then show ?thesis using "1.prems" by (subst (asm) str_nat.simps) (simp add: digit_char_isdigit)
  next
    case False
    then have "c \<in> set (str_nat (n div 10)) \<or> c = digit_char (n mod 10)"
      using "1.prems" by (subst (asm) str_nat.simps) auto
    then show ?thesis using "1.IH" False by (auto simp: digit_char_isdigit)
  qed
qed

lemma slash_not_digit: "\<not> isdigit CHR ''/''"
  by (simp add: isdigit_def)

lemma segment_file_no_slash: "CHR ''/'' \<notin> set (segment_file i)"
  using str_nat_digits [of "CHR ''/''" i]
  by (auto simp: segment_file_def format_04d_def slash_not_digit)

lemma basename_path_join:
  assumes "CHR ''/'' \<notin> set f"
  shows "basename (path_join d f) = f"
proof -
  let ?P = "\<lambda>c. c \<noteq> CHR ''/''"
  have all: "\<forall>c\<in>set (rev f). ?P c"
    using assms by auto
  have tw: "takeWhile ?P (rev f @ ys) = rev f @ takeWhile ?P ys" for ys
    by (rule takeWhile_append2) (use all in blast)
  have f: "rev (takeWhile ?P (rev f @ ys)) = rev (takeWhile ?P ys) @ f" for ys
    by (simp only: tw rev_append rev_rev_ident)
  have f0: "rev (takeWhile ?P (rev f)) = f"
    using f [of "[]"] by simp
  have nohd: "\<not> (f \<noteq> [] \<and> hd f = CHR ''/'')"
    using assms by (cases f) auto
  show ?thesis
  proof (cases d rule: rev_cases)
    case Nil
    then have "path_join d f = f"
      using nohd by (simp add: path_join_def)
    then show ?thesis using f0 by (simp add: basename_def)
  next
    case (snoc ys y)
    show ?thesis
    proof (cases "y = CHR ''/''")
      case True
      then have "path_join d f = d @ f"
        using nohd snoc by (simp add: path_join_def)
      then show ?thesis using True snoc f [of "rev d"] by (simp add: basename_def)
    next
      case False
      then have "path_join d f = d @ CHR ''/'' # f"
        using nohd snoc by (simp add: path_join_def)
      then show ?thesis using f [of "CHR ''/'' # rev d"] by (simp add: basename_def)
    qed
  qed
qed

lemma basename_audio_path: "basename (audio_path dir i) = ''segment_'' @ format_04d i @ ''.wav''"
  using basename_path_join [OF segment_file_no_slash, of dir i]
  by (simp add: audio_path_def segment_file_def)

lemma get_audio_segment_filename:
  "get_audio_segment w2 ex job pos = Inr resp \<Longrightarrow> filename resp = ''segment_'' @ str_int pos @ ''.wav''"
  by (auto simp: get_audio_segment_def split: option.splits if_splits sum.splits)


lemma after_attempts_audio_job:
  "audio_files (after_attempts tts job dir segs w k) job =
     Some (map (audio_path dir) (map fst (filter (succeeded tts dir) (take k (enumerate 0 segs)))))"
  by (simp add: after_attempts_audio comp_def)

text \<open>
  Claim C9. After any number \<open>k\<close> of attempted segments the audio list of the job is the
  list of the output paths of the segments among the first \<open>k\<close> whose synthesis succeeded:
  it is no longer than \<open>k\<close> or than the number of processed segments, the segment
  indices of its entries increase strictly, the attempt of segment \<open>k\<close> appends the path
  for index \<open>k\<close> when it succeeds and leaves the list as it is otherwise, and the
  basename of the path for index \<open>i\<close> is \<open>segment_\<close>, \<open>i\<close> padded with zeros to four
  digits, \<open>.wav\<close>. The file a fetch returns is named \<open>segment_<position>.wav\<close> after the
  requested position. (The witness has a skipped first segment: entry 0 of the list is
  \<open>segment_0001.wav\<close> and is served as \<open>segment_0.wav\<close>.)
\<close>

theorem audio_list_invariant:
  "audio_files (after_attempts tts job dir segs w k) job =
     Some (map (audio_path dir)
            (map fst (filter (succeeded tts dir) (take k (enumerate 0 segs)))))
   \<and> length (filter (succeeded tts dir) (take k (enumerate 0 segs))) \<le> k
   \<and> length (filter (succeeded tts dir) (take k (enumerate 0 segs))) \<le> length segs
   \<and> sorted_wrt (<) (map fst (filter (succeeded tts dir) (take k (enumerate 0 segs))))
   \<and> (k < length segs \<and> succeeded tts dir (k, segs ! k) \<longrightarrow>
        audio_files (after_attempts tts job dir segs w (Suc k)) job =
          Some (the (audio_files (after_attempts tts job dir segs w k) job) @ [audio_path dir k]))
   \<and> (k < length segs \<and> \<not> succeeded tts dir (k, segs ! k) \<longrightarrow>
        audio_files (after_attempts tts job dir segs w (Suc k)) job =
          audio_files (after_attempts tts job dir segs w k) job)
   \<and> basename (audio_path dir i) = ''segment_'' @ format_04d i @ ''.wav''
   \<and> format_04d i = replicate (4 - length (str_nat i)) CHR ''0'' @ str_nat i
   \<and> (get_audio_segment w2 ex job2 pos = Inr resp \<longrightarrow>
        filename resp = ''segment_'' @ str_int pos @ ''.wav'')"
proof -
  let ?ok = "filter (succeeded tts dir) (take k (enumerate 0 segs))"
  have len: "length ?ok \<le> length (take k (enumerate 0 segs))"
    by (rule length_filter_le)
  have l1: "length ?ok \<le> k" using len by simp
  have l2: "length ?ok \<le> length segs" using len by simp
  have step_ok: "audio_files (after_attempts tts job dir segs w (Suc k)) job =
          Some (the (audio_files (after_attempts tts job dir segs w k) job) @ [audio_path dir k])"
    if "k < length segs" "succeeded tts dir (k, segs ! k)"
    using that by (simp add: after_attempts_audio_job take_Suc_enumerate)
  have step_fail: "audio_files (after_attempts tts job dir segs w (Suc k)) job =
          audio_files (after_attempts tts job dir segs w k) job"
    if "k < length segs" "\<not> succeeded tts dir (k, segs ! k)"
    using that by (simp add: after_attempts_audio_job take_Suc_enumerate)
  show ?thesis
    using l1 l2 step_ok step_fail
    by (simp add: after_attempts_audio_job filter_enumerate_sorted basename_audio_path
        format_04d_def get_audio_segment_filename)
qed


lemma str_int_examples: "str_int 0 = ''0''" "str_int (- 1) = ''-1''"
  by code_simp+

lemma format_04d_examples: "format_04d 1 = ''0001''" "format_04d (Suc 0) = ''0001''"
  by code_simp+

lemma enumerate2: "enumerate 0 [a, b] = [(0, a), (1, b)]"
  by (simp add: enumerate_eq_zip upt_rec)

theorem audio_list_invariant_witness:
  "audio_files
     (after_attempts
        (Some (\<lambda>t p. if p = ''/tmp/a/segment_0000.wav'' then Some ''synthesis failed'' else None))
        ''j'' ''/tmp/a''
        [\<lparr>seg_text = ''first'', page = 1, has_figure_reference = False, figure_references = []\<rparr>,
         \<lparr>seg_text = ''second'', page = 1, has_figure_reference = False, figure_references = []\<rparr>]
        \<lparr>processing_jobs = Map.empty, audio_files = Map.empty\<rparr> 2) ''j'' =
     Some [''/tmp/a/segment_0001.wav'']
   \<and> basename ''/tmp/a/segment_0001.wav'' = ''segment_0001.wav''
   \<and> get_audio_segment
        \<lparr>processing_jobs = Map.empty, audio_files = [''j'' \<mapsto> [''/tmp/a/segment_0001.wav'']]\<rparr>
        (\<lambda>p. True) ''j'' 0 =
       Inr \<lparr>path = ''/tmp/a/segment_0001.wav'', media_type = ''audio/wav'',
            filename = ''segment_0.wav''\<rparr>"
proof -
  let ?tts = "Some (\<lambda>t p. if p = ''/tmp/a/segment_0000.wav'' then Some ''synthesis failed''
                          else (None :: string option))"
  let ?segs = "[\<lparr>seg_text = ''first'', page = 1, has_figure_reference = False, figure_references = []\<rparr>,
         \<lparr>seg_text = ''second'', page = 1, has_figure_reference = False, figure_references = []\<rparr>]"
  let ?w = "\<lparr>processing_jobs = Map.empty, audio_files = Map.empty\<rparr>"
  let ?w2 = "\<lparr>processing_jobs = Map.empty, audio_files = [''j'' \<mapsto> [''/tmp/a/segment_0001.wav'']]\<rparr>"
  note t = audio_list_invariant [of ?tts "''j''" "''/tmp/a''" ?segs ?w 1 1 ?w2 "\<lambda>p. True" "''j''" 0
      "\<lparr>path = ''/tmp/a/segment_0001.wav'', media_type = ''audio/wav'', filename = ''segment_0.wav''\<rparr>"]
  have one: "audio_files (after_attempts ?tts ''j'' ''/tmp/a'' ?segs ?w 1) ''j'' = Some []"
    using t by (simp add: enumerate2 succeeded_Some audio_path_examples)
  have two: "audio_files (after_attempts ?tts ''j'' ''/tmp/a'' ?segs ?w 2) ''j'' =
      Some [''/tmp/a/segment_0001.wav'']"
    using t one by (simp add: succeeded_Some audio_path_examples numeral_2_eq_2)
  have base: "basename ''/tmp/a/segment_0001.wav'' = ''segment_0001.wav''"
    using t [THEN conjunct2, THEN conjunct2, THEN conjunct2, THEN conjunct2, THEN conjunct2,
        THEN conjunct2, THEN conjunct1]
    by (simp add: audio_path_examples format_04d_examples)
  have get: "get_audio_segment ?w2 (\<lambda>p. True) ''j'' 0 =
       Inr \<lparr>path = ''/tmp/a/segment_0001.wav'', media_type = ''audio/wav'',
            filename = ''segment_0.wav''\<rparr>"
    by (simp add: get_audio_segment_def getitem_def str_int_examples)
  show ?thesis using two base get by simp
qed

text \<open>
  Claim C4 says that every negative position is answered with not-found. The code only
  compares the position with the length of the list from above: position \<open>-1\<close> on a
  list of one existing file returns that file (Python indexes from the end), and on an
  empty list the indexing raises \<open>IndexError\<close>, which is not a not-found answer.
\<close>

theorem negative_position_not_rejected:
  "get_audio_segment
     \<lparr>processing_jobs = Map.empty, audio_files = [''j'' \<mapsto> [''/tmp/a/segment_0000.wav'']]\<rparr>
     (\<lambda>p. True) ''j'' (- 1) =
     Inr \<lparr>path = ''/tmp/a/segment_0000.wav'', media_type = ''audio/wav'',
          filename = ''segment_-1.wav''\<rparr>
   \<and> get_audio_segment
     \<lparr>processing_jobs = Map.empty, audio_files = [''j'' \<mapsto> []]\<rparr>
     (\<lambda>p. True) ''j'' (- 1) = Inl IndexError"
  by (simp add: get_audio_segment_def getitem_def str_int_examples)

text \<open>
  For a position that is not negative the answer is not-found exactly when the job has
  no audio list, the position is not below the length of the list, or the file at that
  position does not exist; otherwise the file recorded at the position is returned.
\<close>

lemma get_audio_segment_nonnegative:
  assumes "0 \<le> pos"
  shows "(\<exists>msg. get_audio_segment w ex job pos = Inl (HTTPException 404 msg)) =
         (case audio_files w job of
            None \<Rightarrow> True
          | Some files \<Rightarrow> int (length files) \<le> pos \<or> \<not> ex (files ! nat pos))"
    and "get_audio_segment w ex job pos \<noteq> Inl IndexError"
    and "get_audio_segment w ex job pos = Inr resp \<Longrightarrow>
           path resp = the (audio_files w job) ! nat pos"
  using assms
  by (auto simp: get_audio_segment_def getitem_def split: option.splits if_splits)

lemma segment_progress_eq:
  "segment_progress k n = \<lfloor>60 + 30 * (rat_of_nat (Suc k) / rat_of_nat n)\<rfloor>"
  by (simp add: segment_progress_def algebra_simps)

lemma after_attempts_audio_Some:
  "\<exists>fs. audio_files (after_attempts tts job dir segs w k) job = Some fs"
  by (simp add: after_attempts_audio_job)

text \<open>
  Claim C1, as the code has it. In a job with at least one processed segment, the attempt
  of the segment with index \<open>k\<close> (the attempt number \<open>k + 1\<close>) overwrites the registry
  entry of the job only when the synthesis succeeds, and then with a status whose progress
  is the integer part of \<open>60 + 30 * ((k + 1) / total)\<close>: the number of attempted
  segments over the number of all segments, whatever the number of successes. A failed
  attempt leaves the whole state, and with it the entry, as it was. The values written are
  non-decreasing in \<open>k\<close> and lie between 60 and 90.
\<close>

theorem progress_written_after_successful_attempt:
  assumes "k < length segs"
  shows "(succeeded tts dir (k, segs ! k) \<longrightarrow>
            processing_jobs (after_attempts tts job dir segs w (Suc k)) job =
              Some (Status \<lparr>stage = segment_stage k (length segs),
                      progress = \<lfloor>60 + 30 * (rat_of_nat (Suc k) / rat_of_nat (length segs))\<rfloor>,
                      message = None\<rparr>))
       \<and> (\<not> succeeded tts dir (k, segs ! k) \<longrightarrow>
            after_attempts tts job dir segs w (Suc k) = after_attempts tts job dir segs w k)
       \<and> (i \<le> k \<longrightarrow>
            \<lfloor>60 + 30 * (rat_of_nat (Suc i) / rat_of_nat (length segs))\<rfloor>
              \<le> \<lfloor>60 + 30 * (rat_of_nat (Suc k) / rat_of_nat (length segs))\<rfloor>)
       \<and> 60 \<le> \<lfloor>60 + 30 * (rat_of_nat (Suc k) / rat_of_nat (length segs))\<rfloor>
       \<and> \<lfloor>60 + 30 * (rat_of_nat (Suc k) / rat_of_nat (length segs))\<rfloor> \<le> (90 :: int)"
proof -
  let ?n = "length segs"
  have n: "0 < ?n" using assms by (cases segs) simp_all
  obtain fs where fs: "audio_files (after_attempts tts job dir segs w k) job = Some fs"
    using after_attempts_audio_Some by blast
  have ok: "processing_jobs (after_attempts tts job dir segs w (Suc k)) job =
              Some (Status \<lparr>stage = segment_stage k ?n, progress = segment_progress k ?n,
                      message = None\<rparr>)"
    if "succeeded tts dir (k, segs ! k)"
    using that assms fs n by (simp add: after_attempts_Suc step_status [where fs = fs])
  have fail: "after_attempts tts job dir segs w (Suc k) = after_attempts tts job dir segs w k"
    if "\<not> succeeded tts dir (k, segs ! k)"
    using that assms by (simp add: after_attempts_Suc step_failed)
  have mono: "segment_progress i ?n \<le> segment_progress k ?n" if "i \<le> k"
    using that by (rule segment_progress_mono)
  show ?thesis
    using ok fail mono segment_progress_bounds [OF assms]
    by (simp only: segment_progress_eq) blast
qed

text \<open>
  The claim as stated fails for a skipped segment: with one segment whose synthesis
  fails, the entry after the attempt is still the one written before the loop, with
  progress 60 and not 90.
\<close>

theorem progress_not_written_after_failed_attempt:
  "processing_jobs
     (after_attempts (Some (\<lambda>t p. Some ''synthesis failed'')) ''j'' ''/tmp/a''
        [\<lparr>seg_text = ''first'', page = 1, has_figure_reference = False, figure_references = []\<rparr>]
        \<lparr>processing_jobs = Map.empty, audio_files = Map.empty\<rparr> 1) ''j'' =
     Some (Status \<lparr>stage = ''Generating AI voice...'', progress = 60, message = None\<rparr>)
   \<and> \<lfloor>60 + 30 * (rat_of_nat 1 / rat_of_nat 1)\<rfloor> = (90 :: int)"
  by (simp add: after_attempts_def synthesis_loop_def enumerate_eq_zip step_failed
      succeeded_Some start_jobs)

lemma segment_stage_example:
  "segment_stage (Suc 0) (Suc (Suc 0)) = ''Generating audio segment 2/2...''"
  by code_simp

theorem progress_written_after_successful_attempt_witness:
  "processing_jobs
     (after_attempts
        (Some (\<lambda>t p. if p = ''/tmp/a/segment_0000.wav'' then Some ''synthesis failed'' else None))
        ''j'' ''/tmp/a''
        [\<lparr>seg_text = ''first'', page = 1, has_figure_reference = False, figure_references = []\<rparr>,
         \<lparr>seg_text = ''second'', page = 1, has_figure_reference = False, figure_references = []\<rparr>]
        \<lparr>processing_jobs = Map.empty, audio_files = Map.empty\<rparr> 2) ''j'' =
     Some (Status \<lparr>stage = ''Generating audio segment 2/2...'', progress = 90, message = None\<rparr>)"
proof -
  let ?tts = "Some (\<lambda>t p. if p = ''/tmp/a/segment_0000.wav'' then Some ''synthesis failed''
                          else (None :: string option))"
  let ?segs = "[\<lparr>seg_text = ''first'', page = 1, has_figure_reference = False, figure_references = []\<rparr>,
         \<lparr>seg_text = ''second'', page = 1, has_figure_reference = False, figure_references = []\<rparr>]"
  let ?w = "\<lparr>processing_jobs = Map.empty, audio_files = Map.empty\<rparr>"
  have k: "1 < length ?segs" by simp
  note t = progress_written_after_successful_attempt [OF k, of ?tts "''/tmp/a''" "''j''" ?w 0]
  from t [THEN conjunct1] show ?thesis
    by (simp add: succeeded_Some audio_path_examples numeral_2_eq_2 segment_stage_example)
qed

section \<open>Claims about the PDF segmenter\<close>

lemma append_paragraphs_filter:
  "append_paragraphs n p ps segs =
     segs @ map (\<lambda>q. \<lparr>raw_text = q, raw_page = p, raw_total_pages = n\<rparr>)
              (filter (\<lambda>q. 50 < length q) ps)"
  by (induction ps arbitrary: segs) simp_all

lemma strip_whitespace:
  assumes "\<forall>c\<in>set t. isspace c"
  shows "strip t = []"
proof -
  have "dropWhile isspace t = []" using assms by simp
  then show ?thesis by (simp only: strip_def rev.simps dropWhile.simps)
qed

lemma split_chars: "p \<in> set (split sep s) \<Longrightarrow> set p \<subseteq> set s"
proof (induction sep s arbitrary: p rule: split.induct)
  case (1 sep s)
  show ?case
  proof (cases "sep = []")
    case True
    then have "split sep s = [s]" by (subst split.simps) simp
    then show ?thesis using "1.prems" by simp
  next
    case ne1: False
    show ?thesis
    proof (cases "s = []")
      case True
      then have "split sep s = [[]]" using ne1 by (subst split.simps) simp
      then show ?thesis using "1.prems" by simp
    next
      case ne2: False
      show ?thesis
      proof (cases "prefix sep s")
        case True
        then have "split sep s = [] # split sep (drop (length sep) s)"
          using ne1 ne2 by (subst split.simps) simp
        then have "p = [] \<or> p \<in> set (split sep (drop (length sep) s))"
          using "1.prems" by simp
        then show ?thesis
        proof
          assume "p = []"
          then show ?thesis by simp
        next
          assume "p \<in> set (split sep (drop (length sep) s))"
          then have "set p \<subseteq> set (drop (length sep) s)"
            by (rule "1.IH"(1) [OF ne1 ne2 True])
          then show ?thesis using set_drop_subset [of "length sep" s] by (rule subset_trans)
        qed
      next
        case nopre: False
        have eq: "split sep s =
            (case split sep (tl s) of [] \<Rightarrow> [[hd s]] | w # ws \<Rightarrow> (hd s # w) # ws)"
          using ne1 ne2 nopre by (subst split.simps) simp
        obtain c cs where s: "s = c # cs" using ne2 by (cases s) simp_all
        have ih: "q \<in> set (split sep cs) \<Longrightarrow> set q \<subseteq> set cs" for q
          using "1.IH"(2) [OF ne1 ne2 nopre, of q] s by simp
        show ?thesis
        proof (cases "split sep cs")
          case Nil
          then have "p = [c]" using eq "1.prems" s by simp
          then show ?thesis using s by simp
        next
          case (Cons w ws)
          then have "p = c # w \<or> p \<in> set ws" using eq "1.prems" s by simp
          then show ?thesis
          proof
            assume "p = c # w"
            moreover have "set w \<subseteq> set cs" using ih [of w] Cons by simp
            ultimately show ?thesis using s by auto
          next
            assume "p \<in> set ws"
            then have "set p \<subseteq> set cs" using ih [of p] Cons by simp
            then show ?thesis using s by auto
          qed
        qed
      qed
    qed
  qed
qed

lemma paragraphs_whitespace: "(\<forall>c\<in>set t. isspace c) \<Longrightarrow> paragraphs t = []"
proof -
  assume ws: "\<forall>c\<in>set t. isspace c"
  have "strip p = []" if "p \<in> set (split [newline, newline] t)" for p
    using split_chars [OF that] ws by (intro strip_whitespace) blast
  then show ?thesis by (simp add: paragraphs_def filter_empty_conv)
qed

lemma strip_empty_iff: "strip t = [] \<longleftrightarrow> (\<forall>c\<in>set t. isspace c)"
proof
  assume "strip t = []"
  then have e: "dropWhile isspace (rev (dropWhile isspace t)) = []"
    by (simp only: strip_def rev_is_Nil_conv)
  show "\<forall>c\<in>set t. isspace c"
  proof (cases "dropWhile isspace t")
    case Nil
    then show ?thesis by simp
  next
    case (Cons x xs)
    then have "\<not> isspace x" using hd_dropWhile [of isspace t] by simp
    moreover have "x \<in> set (rev (dropWhile isspace t))" using Cons by simp
    moreover have "\<forall>y\<in>set (rev (dropWhile isspace t)). isspace y"
      using e by (simp only: dropWhile_eq_Nil_conv)
    ultimately show ?thesis by blast
  qed
next
  assume "\<forall>c\<in>set t. isspace c"
  then show "strip t = []" by (rule strip_whitespace)
qed

lemma extract_page_Some:
  "extract_page n p (Some t) segs =
     segs @ map (\<lambda>q. \<lparr>raw_text = q, raw_page = p, raw_total_pages = n\<rparr>)
              (filter (\<lambda>q. 50 < length q) (paragraphs t))"
proof (cases "strip t = []")
  case True
  then have "paragraphs t = []" by (simp add: strip_empty_iff paragraphs_whitespace)
  then show ?thesis using True by (simp add: extract_page_def)
next
  case False
  then have "t \<noteq> []" by (auto simp: strip_def)
  then show ?thesis using False by (simp add: extract_page_def append_paragraphs_filter)
qed

lemma split_without_separator:
  "sep \<noteq> [] \<Longrightarrow> \<not> sublist sep s \<Longrightarrow> split sep s = [s]"
proof (induction s)
  case Nil
  then show ?case by (subst split.simps) simp
next
  case (Cons c cs)
  have nopre: "\<not> prefix sep (c # cs)"
  proof
    assume "prefix sep (c # cs)"
    then have "sublist sep (c # cs)" by (rule prefix_imp_sublist)
    then show False using Cons.prems(2) by contradiction
  qed
  have "\<not> sublist sep cs"
  proof
    assume "sublist sep cs"
    then have "sublist sep (c # cs)" by (simp only: sublist_Cons_right simp_thms)
    then show False using Cons.prems(2) by contradiction
  qed
  then have ih: "split sep cs = [cs]" by (rule Cons.IH [OF Cons.prems(1)])
  have "split sep (c # cs) =
      (case split sep (tl (c # cs)) of [] \<Rightarrow> [[hd (c # cs)]] | w # ws \<Rightarrow> (hd (c # cs) # w) # ws)"
    by (subst split.simps) (simp only: Cons.prems(1) nopre if_False list.distinct)
  then show ?case by (simp only: ih list.sel list.case)
qed

lemma paragraphs_single:
  assumes "strip q = q" "\<not> sublist [newline, newline] q"
  shows "paragraphs q = (if q = [] then [] else [q])"
  using assms by (simp add: paragraphs_def split_without_separator)


text \<open>
  Claim C5. A page for which no text is extracted, or whose text is empty or consists of
  whitespace only, adds no segment. A page adds one segment for each of its trimmed
  non-empty paragraphs of at least 51 characters and none for the others: a trimmed
  paragraph of 50 characters or fewer is dropped, one of 51 characters or more is kept.
\<close>

theorem segmenter_length_filter:
  "extract_page n p None segs = segs
   \<and> ((\<forall>c\<in>set t. isspace c) \<longrightarrow> extract_page n p (Some t) segs = segs)
   \<and> extract_page n p (Some t) segs =
       segs @ map (\<lambda>q. \<lparr>raw_text = q, raw_page = p, raw_total_pages = n\<rparr>)
                (filter (\<lambda>q. 51 \<le> length q) (paragraphs t))
   \<and> (strip q = q \<and> \<not> sublist [newline, newline] q \<and> length q \<le> 50 \<longrightarrow>
        extract_page n p (Some q) segs = segs)
   \<and> (strip q = q \<and> \<not> sublist [newline, newline] q \<and> 51 \<le> length q \<longrightarrow>
        extract_page n p (Some q) segs =
          segs @ [\<lparr>raw_text = q, raw_page = p, raw_total_pages = n\<rparr>])"
proof -
  have gt: "(\<lambda>q :: string. 50 < length q) = (\<lambda>q. 51 \<le> length q)"
    by auto
  have a: "extract_page n p None segs = segs"
    by (simp add: extract_page_def)
  have b: "extract_page n p (Some t) segs = segs" if "\<forall>c\<in>set t. isspace c"
    using that by (simp add: extract_page_Some paragraphs_whitespace)
  have c: "extract_page n p (Some t) segs =
       segs @ map (\<lambda>q. \<lparr>raw_text = q, raw_page = p, raw_total_pages = n\<rparr>)
                (filter (\<lambda>q. 51 \<le> length q) (paragraphs t))"
    by (simp only: extract_page_Some gt)
  have d: "extract_page n p (Some q) segs = segs"
    if "strip q = q" "\<not> sublist [newline, newline] q" "length q \<le> 50"
    using that by (simp add: extract_page_Some paragraphs_single)
  have e: "extract_page n p (Some q) segs =
          segs @ [\<lparr>raw_text = q, raw_page = p, raw_total_pages = n\<rparr>]"
    if "strip q = q" "\<not> sublist [newline, newline] q" "51 \<le> length q"
    using that by (auto simp: extract_page_Some paragraphs_single)
  show ?thesis using a b c d e by blast
qed

lemma fifty_one_trimmed:
  "strip (replicate 51 CHR ''b'') = replicate 51 CHR ''b''"
  "strip (replicate 50 CHR ''a'') = replicate 50 CHR ''a''"
  by code_simp+

lemma no_blank_line:
  "\<not> sublist [newline, newline] (replicate k CHR ''b'')"
  "\<not> sublist [newline, newline] (replicate k CHR ''a'')"
  using set_mono_sublist [of "[newline, newline]" "replicate k CHR ''b''"]
        set_mono_sublist [of "[newline, newline]" "replicate k CHR ''a''"]
  by (auto simp: newline_def)

theorem segmenter_length_filter_witness:
  "extract_page 3 2 (Some (replicate 50 CHR ''a'')) [] = []
   \<and> extract_page 3 2 (Some (replicate 51 CHR ''b'')) [] =
       [\<lparr>raw_text = replicate 51 CHR ''b'', raw_page = 2, raw_total_pages = 3\<rparr>]
   \<and> extract_page 3 2 (Some [CHR '' '', newline, CHR '' '']) [] = []"
proof -
  have ws: "\<forall>c\<in>set [CHR '' '', newline, CHR '' '']. isspace c"
    by (simp add: isspace_def newline_def)
  note t50 = segmenter_length_filter [of 3 2 "[]" "[CHR '' '', newline, CHR '' '']"
      "replicate 50 CHR ''a''"]
  note t51 = segmenter_length_filter [of 3 2 "[]" "[CHR '' '', newline, CHR '' '']"
      "replicate 51 CHR ''b''"]
  have "extract_page 3 2 (Some (replicate 50 CHR ''a'')) [] = []"
    using t50 fifty_one_trimmed no_blank_line by simp
  moreover have "extract_page 3 2 (Some (replicate 51 CHR ''b'')) [] =
       [\<lparr>raw_text = replicate 51 CHR ''b'', raw_page = 2, raw_total_pages = 3\<rparr>]"
    using t51 fifty_one_trimmed no_blank_line by simp
  moreover have "extract_page 3 2 (Some [CHR '' '', newline, CHR '' '']) [] = []"
    using t50 ws by blast
  ultimately show ?thesis by blast
qed

section \<open>Claims about the figure-reference detector\<close>

















end
